theory Spec2Isabelle
  imports Main "HOL-Library.AList" "HOL-Library.Word"
begin

section \<open>Access requests of lib/services/access\_request.go\<close>

text \<open>
  A shallow embedding of the request filter, the request record and the request validator
  of \<^verbatim>\<open>lib/services/access_request.go\<close>. Go maps are association lists whose keys are
  distinct; the order of the list stands for the order in which the runtime happens to
  iterate over the map, so a statement that holds for every such list holds for every
  iteration order. A nil map and an empty map read alike and are both the empty list.
  A method that mutates its receiver and returns an error returns the receiver and an
  optional error.
\<close>

subsection \<open>Errors\<close>

text \<open>
  \<^verbatim>\<open>trace.BadParameter(format, args...)\<close> and \<^verbatim>\<open>trace.NotFound(format, args...)\<close>: the kind
  of the error, its format string and the arguments of the format. \<^verbatim>\<open>trace.Wrap\<close>
  keeps all three.
\<close>

datatype error = BadParameter string "string list" | NotFound string "string list"

subsection \<open>Request states\<close>

text \<open>
  \<^verbatim>\<open>RequestState\<close> is a generated enumeration over \<^verbatim>\<open>int32\<close>; its method \<^verbatim>\<open>String\<close> is
  generated too and is a parameter (\<open>String\<close>) of every function below that calls it.
\<close>

type_synonym RequestState = "32 word"

definition RequestState_NONE :: RequestState where "RequestState_NONE = 0"
definition RequestState_PENDING :: RequestState where "RequestState_PENDING = 1"
definition RequestState_APPROVED :: RequestState where "RequestState_APPROVED = 2"
definition RequestState_DENIED :: RequestState where "RequestState_DENIED = 3"

definition stateVariants :: "RequestState list" where
  "stateVariants =
     [RequestState_NONE, RequestState_PENDING, RequestState_APPROVED, RequestState_DENIED]"

definition IsNone :: "RequestState \<Rightarrow> bool" where
  "IsNone s = (s = RequestState_NONE)"

definition IsPending :: "RequestState \<Rightarrow> bool" where
  "IsPending s = (s = RequestState_PENDING)"

definition IsApproved :: "RequestState \<Rightarrow> bool" where
  "IsApproved s = (s = RequestState_APPROVED)"

definition IsDenied :: "RequestState \<Rightarrow> bool" where
  "IsDenied s = (s = RequestState_DENIED)"

text \<open>The loop of \<^verbatim>\<open>RequestState.Parse\<close> over the variants still to be tried.\<close>

fun ParseLoop :: "(RequestState \<Rightarrow> string) \<Rightarrow> string \<Rightarrow> RequestState list \<Rightarrow> error + RequestState" where
  "ParseLoop String val [] = Inl (BadParameter ''unknown request state: %q'' [val])"
| "ParseLoop String val (state # rest) =
     (if String state = val then Inr state else ParseLoop String val rest)"

definition Parse :: "(RequestState \<Rightarrow> string) \<Rightarrow> string \<Rightarrow> error + RequestState" where
  "Parse String val = ParseLoop String val stateVariants"

subsection \<open>The request filter and its map encoding\<close>

record AccessRequestFilter =
  f_ID :: string
  f_User :: string
  f_State :: RequestState

definition keyID :: string where "keyID = ''id''"
definition keyUser :: string where "keyUser = ''user''"
definition keyState :: string where "keyState = ''state''"

definition IntoMap :: "(RequestState \<Rightarrow> string) \<Rightarrow> AccessRequestFilter \<Rightarrow> (string \<times> string) list" where
  "IntoMap String f =
     (let m0 = [];
          m1 = (if f_ID f \<noteq> [] then AList.update keyID (f_ID f) m0 else m0);
          m2 = (if f_User f \<noteq> [] then AList.update keyUser (f_User f) m1 else m1);
          m3 = (if \<not> IsNone (f_State f) then AList.update keyState (String (f_State f)) m2 else m2)
      in m3)"

text \<open>
  \<^verbatim>\<open>FromMap\<close> visits the entries in the order of the list; it returns the filter as the
  assignments made so far have left it, and the error that stopped it.
\<close>

fun FromMap :: "(RequestState \<Rightarrow> string) \<Rightarrow> (string \<times> string) list \<Rightarrow> AccessRequestFilter
    \<Rightarrow> AccessRequestFilter \<times> error option" where
  "FromMap String [] f = (f, None)"
| "FromMap String ((key, val) # rest) f =
     (if key = keyID then FromMap String rest (f\<lparr>f_ID := val\<rparr>)
      else if key = keyUser then FromMap String rest (f\<lparr>f_User := val\<rparr>)
      else if key = keyState then
        (case Parse String val of
           Inl err \<Rightarrow> (f, Some err)
         | Inr s \<Rightarrow> FromMap String rest (f\<lparr>f_State := s\<rparr>))
      else (f, Some (BadParameter ''unknown filter key %s'' [key])))"

definition Equals :: "AccessRequestFilter \<Rightarrow> AccessRequestFilter \<Rightarrow> bool" where
  "Equals f o' = (f_ID f = f_ID o' \<and> f_User f = f_User o' \<and> f_State f = f_State o')"

text \<open>The zero value of the filter: empty strings and state 0.\<close>

definition zeroFilter :: AccessRequestFilter where
  "zeroFilter = \<lparr>f_ID = [], f_User = [], f_State = 0\<rparr>"

subsection \<open>Roles, users and requests\<close>

type_synonym strmap = "(string \<times> string list) list"

record ClaimMapping =
  cm_Claim :: string
  cm_Value :: string
  cm_Roles :: "string list"

record TraitMapping =
  tm_Trait :: string
  tm_Value :: string
  tm_Roles :: "string list"

record AccessRequestConditions =
  arc_Roles :: "string list"
  arc_ClaimsToRoles :: "ClaimMapping list"
  arc_Annotations :: strmap

datatype RoleConditionType = Allow | Deny

record RoleOptions =
  RequestAccess :: string

record Role =
  role_Name :: string
  role_Allow :: AccessRequestConditions
  role_Deny :: AccessRequestConditions
  role_Options :: RoleOptions

record User =
  user_Name :: string
  user_Roles :: "string list"
  user_Traits :: strmap

record AccessRequestSpecV3 =
  spec_User :: string
  spec_Roles :: "string list"
  spec_State :: RequestState
  spec_Created :: int
  spec_Expires :: int
  spec_RequestReason :: string
  spec_ResolveReason :: string
  spec_ResolveAnnotations :: strmap
  spec_SystemAnnotations :: strmap

record AccessRequestV3 =
  Metadata_Name :: string
  Spec :: AccessRequestSpecV3

definition RequestStrategyOptional :: string where "RequestStrategyOptional = ''optional''"
definition RequestStrategyReason :: string where "RequestStrategyReason = ''reason''"
definition RequestStrategyAlways :: string where "RequestStrategyAlways = ''always''"

text \<open>
  Modelled from the spec: the accessors of the role and of the user, whose record types
  are declared outside this file. A role carries two access request conditions, Allow and
  Deny, its request-access option and its name; a user has its held role names and its
  trait bindings.
\<close>

definition GetAccessRequestConditions :: "Role \<Rightarrow> RoleConditionType \<Rightarrow> AccessRequestConditions" where
  "GetAccessRequestConditions role rct = (case rct of Allow \<Rightarrow> role_Allow role | Deny \<Rightarrow> role_Deny role)"

definition GetOptions :: "Role \<Rightarrow> RoleOptions" where
  "GetOptions role = role_Options role"

definition GetTraitMappings :: "AccessRequestConditions \<Rightarrow> TraitMapping list" where
  "GetTraitMappings c =
     map (\<lambda>mapping. \<lparr>tm_Trait = cm_Claim mapping, tm_Value = cm_Value mapping,
                      tm_Roles = cm_Roles mapping\<rparr>) (arc_ClaimsToRoles c)"

definition GetUser :: "AccessRequestV3 \<Rightarrow> string" where
  "GetUser r = spec_User (Spec r)"

definition GetRoles :: "AccessRequestV3 \<Rightarrow> string list" where
  "GetRoles r = spec_Roles (Spec r)"

definition SetRoles :: "string list \<Rightarrow> AccessRequestV3 \<Rightarrow> AccessRequestV3" where
  "SetRoles roles r = r\<lparr>Spec := (Spec r)\<lparr>spec_Roles := roles\<rparr>\<rparr>"

definition GetState :: "AccessRequestV3 \<Rightarrow> RequestState" where
  "GetState r = spec_State (Spec r)"

definition SetState :: "(RequestState \<Rightarrow> string) \<Rightarrow> RequestState \<Rightarrow> AccessRequestV3
    \<Rightarrow> AccessRequestV3 \<times> error option" where
  "SetState String st r =
     (if IsDenied (spec_State (Spec r)) then
        (if IsDenied st then (r, None)
         else (r, Some (BadParameter ''cannot set request-state %q (already denied)'' [String st])))
      else (r\<lparr>Spec := (Spec r)\<lparr>spec_State := st\<rparr>\<rparr>, None))"

definition GetRequestReason :: "AccessRequestV3 \<Rightarrow> string" where
  "GetRequestReason r = spec_RequestReason (Spec r)"

definition GetSystemAnnotations :: "AccessRequestV3 \<Rightarrow> strmap" where
  "GetSystemAnnotations r = spec_SystemAnnotations (Spec r)"

definition SetSystemAnnotations :: "strmap \<Rightarrow> AccessRequestV3 \<Rightarrow> AccessRequestV3" where
  "SetSystemAnnotations annotations r = r\<lparr>Spec := (Spec r)\<lparr>spec_SystemAnnotations := annotations\<rparr>\<rparr>"

subsection \<open>The collaborators of the validator\<close>

text \<open>
  A matcher is its method \<^verbatim>\<open>Match\<close>. The matcher constructor \<^verbatim>\<open>parse.NewMatcher\<close>, the
  expansion of trait mappings \<^verbatim>\<open>TraitMappingSet.TraitsToRoles\<close> and the interpolation of
  one annotation template \<^verbatim>\<open>applyValueTraits\<close> live in other packages; the validator is
  parametric in them.
\<close>

type_synonym Matcher = "string \<Rightarrow> bool"

record externals =
  NewMatcher :: "string \<Rightarrow> error + Matcher"
  TraitsToRoles :: "TraitMapping list \<Rightarrow> strmap \<Rightarrow> string list"
  applyValueTraits :: "string \<Rightarrow> strmap \<Rightarrow> error + string list"

record UserAndRoleGetter =
  getter_GetUser :: "string \<Rightarrow> bool \<Rightarrow> error + User"
  getter_GetRole :: "string \<Rightarrow> error + Role"
  getter_GetRoles :: "error + Role list"

text \<open>
  Modelled from the spec: \<^verbatim>\<open>utils.SliceContainsStr\<close>, which is not in this file; the
  values are compared as exact strings.
\<close>

primrec SliceContainsStr :: "string list \<Rightarrow> string \<Rightarrow> bool" where
  "SliceContainsStr [] s = False"
| "SliceContainsStr (x # xs) s = (if x = s then True else SliceContainsStr xs s)"

subsection \<open>The request validator\<close>

record requestValidator =
  traits :: strmap
  state :: RequestState
  Roles_Allow :: "Matcher list"
  Roles_Deny :: "Matcher list"
  Annotations_Allow :: strmap
  Annotations_Deny :: strmap

definition newRequestValidator :: "strmap \<Rightarrow> RequestState \<Rightarrow> requestValidator" where
  "newRequestValidator tr st =
     \<lparr>traits = tr, state = st, Roles_Allow = [], Roles_Deny = [],
      Annotations_Allow = [], Annotations_Deny = []\<rparr>"

text \<open>Reading a Go map at a key it does not hold gives the nil slice.\<close>

definition mapIndex :: "strmap \<Rightarrow> string \<Rightarrow> string list" where
  "mapIndex m k = (case map_of m k of None \<Rightarrow> [] | Some vs \<Rightarrow> vs)"

text \<open>
  The two matcher loops of \<^verbatim>\<open>push\<close>: a matcher is built from each pattern and appended;
  the first pattern that does not compile ends \<^verbatim>\<open>push\<close> with its error.
\<close>

fun appendMatchers :: "(string \<Rightarrow> error + Matcher) \<Rightarrow> string list \<Rightarrow> Matcher list
    \<Rightarrow> error + Matcher list" where
  "appendMatchers newMatcher [] ms = Inr ms"
| "appendMatchers newMatcher (d # ds) ms =
     (case newMatcher d of
        Inl err \<Rightarrow> Inl err
      | Inr md \<Rightarrow> appendMatchers newMatcher ds (ms @ [md]))"

text \<open>
  The inner annotation loop (labels \<^verbatim>\<open>Dval\<close> and \<^verbatim>\<open>Avals\<close>): a template whose
  interpolation returns an error is passed over with \<^verbatim>\<open>continue\<close>.
\<close>

fun applyTemplates :: "(string \<Rightarrow> strmap \<Rightarrow> error + string list) \<Rightarrow> strmap \<Rightarrow> string list
    \<Rightarrow> string list \<Rightarrow> string list" where
  "applyTemplates apply tr [] vals = vals"
| "applyTemplates apply tr (d # ds) vals =
     (case apply d tr of
        Inl err \<Rightarrow> applyTemplates apply tr ds vals
      | Inr applied \<Rightarrow> applyTemplates apply tr ds (vals @ applied))"

text \<open>The outer annotation loop, over the entries of the role's annotation map.\<close>

fun pushAnnotations :: "(string \<Rightarrow> strmap \<Rightarrow> error + string list) \<Rightarrow> strmap
    \<Rightarrow> (string \<times> string list) list \<Rightarrow> strmap \<Rightarrow> strmap" where
  "pushAnnotations apply tr [] acc = acc"
| "pushAnnotations apply tr ((k, vd) # rest) acc =
     pushAnnotations apply tr rest
       (AList.update k (mapIndex acc k @ applyTemplates apply tr vd []) acc)"

text \<open>
  \<^verbatim>\<open>push\<close>. The validator is a local of \<^verbatim>\<open>ValidateAccessRequest\<close>, which drops it as soon
  as \<^verbatim>\<open>push\<close> fails, so a failed \<^verbatim>\<open>push\<close> returns the error alone.
\<close>

definition push :: "externals \<Rightarrow> Role \<Rightarrow> requestValidator \<Rightarrow> error + requestValidator" where
  "push ext role m =
     (case appendMatchers (NewMatcher ext)
             (arc_Roles (GetAccessRequestConditions role Deny)) (Roles_Deny m) of
        Inl err \<Rightarrow> Inl err
      | Inr deny1 \<Rightarrow>
     (case appendMatchers (NewMatcher ext)
             (TraitsToRoles ext (GetTraitMappings (GetAccessRequestConditions role Deny)) (traits m))
             deny1 of
        Inl err \<Rightarrow> Inl err
      | Inr deny2 \<Rightarrow>
     (let annDeny =
            (if IsPending (state m) then
               pushAnnotations (applyValueTraits ext) (traits m)
                 (arc_Annotations (GetAccessRequestConditions role Deny)) (Annotations_Deny m)
             else Annotations_Deny m)
      in
     (case appendMatchers (NewMatcher ext)
             (arc_Roles (GetAccessRequestConditions role Allow)) (Roles_Allow m) of
        Inl err \<Rightarrow> Inl err
      | Inr allow1 \<Rightarrow>
     (case appendMatchers (NewMatcher ext)
             (TraitsToRoles ext (GetTraitMappings (GetAccessRequestConditions role Allow)) (traits m))
             allow1 of
        Inl err \<Rightarrow> Inl err
      | Inr allow2 \<Rightarrow>
     (let annAllow =
            (if IsPending (state m) then
               pushAnnotations (applyValueTraits ext) (traits m)
                 (arc_Annotations (GetAccessRequestConditions role Allow)) (Annotations_Allow m)
             else Annotations_Allow m)
      in Inr (m\<lparr>Roles_Allow := allow2, Roles_Deny := deny2,
                 Annotations_Allow := annAllow, Annotations_Deny := annDeny\<rparr>)))))))"

text \<open>Pushing a list of roles, one after the other, stopping at the first error.\<close>

fun pushAll :: "externals \<Rightarrow> Role list \<Rightarrow> requestValidator \<Rightarrow> error + requestValidator" where
  "pushAll ext [] m = Inr m"
| "pushAll ext (role # roles) m =
     (case push ext role m of Inl err \<Rightarrow> Inl err | Inr m' \<Rightarrow> pushAll ext roles m')"

text \<open>The two loops of \<^verbatim>\<open>CanRequestRole\<close> ask whether some matcher of a list matches.\<close>

primrec anyMatch :: "Matcher list \<Rightarrow> string \<Rightarrow> bool" where
  "anyMatch [] name = False"
| "anyMatch (x # xs) name = (if x name then True else anyMatch xs name)"

definition CanRequestRole :: "requestValidator \<Rightarrow> string \<Rightarrow> bool" where
  "CanRequestRole m name =
     (if anyMatch (Roles_Deny m) name then False
      else if anyMatch (Roles_Allow m) name then True
      else False)"

text \<open>\<^verbatim>\<open>SystemAnnotations\<close>: the inner loop over the values, the outer loop over the keys.\<close>

fun filterValues :: "string list \<Rightarrow> string list \<Rightarrow> string list \<Rightarrow> string list" where
  "filterValues denied [] filtered = filtered"
| "filterValues denied (v # va) filtered =
     (if \<not> SliceContainsStr denied v then filterValues denied va (filtered @ [v])
      else filterValues denied va filtered)"

fun annotationsLoop :: "strmap \<Rightarrow> (string \<times> string list) list \<Rightarrow> strmap \<Rightarrow> strmap" where
  "annotationsLoop deny [] annotations = annotations"
| "annotationsLoop deny ((k, va) # rest) annotations =
     (let filtered = filterValues (mapIndex deny k) va []
      in if length filtered = 0 then annotationsLoop deny rest annotations
         else annotationsLoop deny rest (AList.update k filtered annotations))"

definition SystemAnnotations :: "requestValidator \<Rightarrow> strmap" where
  "SystemAnnotations m = annotationsLoop (Annotations_Deny m) (Annotations_Allow m) []"

subsection \<open>ValidateAccessRequest\<close>

text \<open>
  The loop over the role names the user holds: each role is fetched and pushed, and a role
  whose request-access option is \<^verbatim>\<open>reason\<close> sets \<^verbatim>\<open>requireReason\<close>.
\<close>

fun pushUserRoles :: "externals \<Rightarrow> UserAndRoleGetter \<Rightarrow> string list \<Rightarrow> requestValidator \<Rightarrow> bool
    \<Rightarrow> error + (requestValidator \<times> bool)" where
  "pushUserRoles ext getter [] validator requireReason = Inr (validator, requireReason)"
| "pushUserRoles ext getter (roleName # rest) validator requireReason =
     (case getter_GetRole getter roleName of
        Inl err \<Rightarrow> Inl err
      | Inr role \<Rightarrow>
          (case push ext role validator of
             Inl err \<Rightarrow> Inl err
           | Inr validator' \<Rightarrow>
               pushUserRoles ext getter rest validator'
                 (if RequestAccess (GetOptions role) = RequestStrategyReason then True
                  else requireReason)))"

text \<open>The map \<^verbatim>\<open>held\<close>: reading it at a name never stored gives false.\<close>

fun heldRoles :: "string list \<Rightarrow> (string \<Rightarrow> bool) \<Rightarrow> (string \<Rightarrow> bool)" where
  "heldRoles [] held = held"
| "heldRoles (roleName # rest) held = heldRoles rest (held(roleName := True))"

fun expandRolesLoop :: "(string \<Rightarrow> bool) \<Rightarrow> requestValidator \<Rightarrow> Role list \<Rightarrow> string list
    \<Rightarrow> string list" where
  "expandRolesLoop held validator [] expanded = expanded"
| "expandRolesLoop held validator (role # rest) expanded =
     (let n = role_Name role
      in if \<not> held n \<and> CanRequestRole validator n
         then expandRolesLoop held validator rest (expanded @ [n])
         else expandRolesLoop held validator rest expanded)"

fun checkRoles :: "requestValidator \<Rightarrow> string \<Rightarrow> string list \<Rightarrow> error option" where
  "checkRoles validator user [] = None"
| "checkRoles validator user (roleName # rest) =
     (if \<not> CanRequestRole validator roleName
      then Some (BadParameter ''user %q cannot request/assume role %q'' [user, roleName])
      else checkRoles validator user rest)"

definition isWildcard :: "string list \<Rightarrow> bool" where
  "isWildcard r = (length r = 1 \<and> r ! 0 = ''*'')"

text \<open>
  The wildcard block. It either fails, leaving the request as it was, or returns the
  request with its role list replaced.
\<close>

definition resolveWildcard :: "UserAndRoleGetter \<Rightarrow> User \<Rightarrow> requestValidator \<Rightarrow> AccessRequestV3
    \<Rightarrow> bool \<Rightarrow> error + AccessRequestV3" where
  "resolveWildcard getter user validator req expandRoles =
     (if isWildcard (GetRoles req) then
        (if \<not> expandRoles then Inl (BadParameter ''unexpected wildcard access request'' [])
         else
           (case getter_GetRoles getter of
              Inl err \<Rightarrow> Inl err
            | Inr allRoles \<Rightarrow>
                Inr (SetRoles
                       (expandRolesLoop (heldRoles (user_Roles user) (\<lambda>_. False)) validator allRoles [])
                       req)))
      else Inr req)"

definition ValidateAccessRequest :: "externals \<Rightarrow> UserAndRoleGetter \<Rightarrow> AccessRequestV3 \<Rightarrow> bool
    \<Rightarrow> AccessRequestV3 \<times> error option" where
  "ValidateAccessRequest ext getter req expandRoles =
     (case getter_GetUser getter (GetUser req) False of
        Inl err \<Rightarrow> (req, Some err)
      | Inr user \<Rightarrow>
     (case pushUserRoles ext getter (user_Roles user)
             (newRequestValidator (user_Traits user) (GetState req)) False of
        Inl err \<Rightarrow> (req, Some err)
      | Inr (validator, requireReason) \<Rightarrow>
     (if requireReason \<and> GetRequestReason req = []
      then (req, Some (BadParameter ''request reason must be specified'' []))
      else
     (case resolveWildcard getter user validator req expandRoles of
        Inl err \<Rightarrow> (req, Some err)
      | Inr req1 \<Rightarrow>
     (case checkRoles validator (GetUser req1) (GetRoles req1) of
        Some err \<Rightarrow> (req1, Some err)
      | None \<Rightarrow>
     (if IsPending (GetState req1)
      then (SetSystemAnnotations (SystemAnnotations validator) req1, None)
      else (req1, None)))))))"

subsection \<open>What one role contributes\<close>

text \<open>
  The matchers one role adds to a matcher list, for stating what \<^verbatim>\<open>push\<close> appends: the
  role's patterns of the given condition, then the patterns its trait mappings expand to.
\<close>

definition roleMatchers :: "externals \<Rightarrow> Role \<Rightarrow> RoleConditionType \<Rightarrow> strmap \<Rightarrow> error + Matcher list" where
  "roleMatchers ext role rct tr =
     (case appendMatchers (NewMatcher ext) (arc_Roles (GetAccessRequestConditions role rct)) [] of
        Inl err \<Rightarrow> Inl err
      | Inr ms \<Rightarrow>
          appendMatchers (NewMatcher ext)
            (TraitsToRoles ext (GetTraitMappings (GetAccessRequestConditions role rct)) tr) ms)"

subsection \<open>A concrete instance\<close>

text \<open>
  A small instance of the collaborators and of the role catalogue, on which the functions
  above can be run. Patterns are literals or globs in which \<^verbatim>\<open>*\<close> matches any substring,
  and a pattern holding a brace does not compile; a trait mapping contributes its roles
  when its value is bound to its trait; a template \<^verbatim>\<open>$name\<close> expands to the values bound
  to the trait \<^verbatim>\<open>name\<close> and fails when there are none.
\<close>

fun globMatch :: "string \<Rightarrow> string \<Rightarrow> bool" where
  "globMatch [] s = (s = [])"
| "globMatch (p # ps) [] = (p = CHR ''*'' \<and> globMatch ps [])"
| "globMatch (p # ps) (c # cs) =
     (if p = CHR ''*'' then globMatch ps (c # cs) \<or> globMatch (p # ps) cs
      else p = c \<and> globMatch ps cs)"

definition sampleNewMatcher :: "string \<Rightarrow> error + Matcher" where
  "sampleNewMatcher p =
     (if CHR ''{'' \<in> set p \<or> CHR ''}'' \<in> set p
      then Inl (BadParameter ''%q is using template brackets'' [p])
      else Inr (globMatch p))"

definition sampleTraitsToRoles :: "TraitMapping list \<Rightarrow> strmap \<Rightarrow> string list" where
  "sampleTraitsToRoles tms tr =
     concat (map (\<lambda>tm. if tm_Value tm \<in> set (mapIndex tr (tm_Trait tm)) then tm_Roles tm else []) tms)"

definition sampleApplyValueTraits :: "string \<Rightarrow> strmap \<Rightarrow> error + string list" where
  "sampleApplyValueTraits val tr =
     (case val of
        [] \<Rightarrow> Inr [val]
      | c # name \<Rightarrow>
          if c = CHR ''$'' then
            (case map_of tr name of
               None \<Rightarrow> Inl (NotFound ''variable %q not found in traits'' [name])
             | Some vs \<Rightarrow> Inr vs)
          else Inr [val])"

definition sampleExt :: externals where
  "sampleExt = \<lparr>NewMatcher = sampleNewMatcher, TraitsToRoles = sampleTraitsToRoles,
                applyValueTraits = sampleApplyValueTraits\<rparr>"

definition sampleString :: "RequestState \<Rightarrow> string" where
  "sampleString s =
     (if s = RequestState_NONE then ''NONE''
      else if s = RequestState_PENDING then ''PENDING''
      else if s = RequestState_APPROVED then ''APPROVED''
      else if s = RequestState_DENIED then ''DENIED''
      else ''UNKNOWN'')"

definition noConditions :: AccessRequestConditions where
  "noConditions = \<lparr>arc_Roles = [], arc_ClaimsToRoles = [], arc_Annotations = []\<rparr>"

definition roleBase :: Role where
  "roleBase =
     \<lparr>role_Name = ''base'',
      role_Allow = \<lparr>arc_Roles = [''dev-*''], arc_ClaimsToRoles = [],
                    arc_Annotations = [(''team'', [''$team'', ''$squad''])]\<rparr>,
      role_Deny = \<lparr>arc_Roles = [''dev-secret''], arc_ClaimsToRoles = [], arc_Annotations = []\<rparr>,
      role_Options = \<lparr>RequestAccess = ''reason''\<rparr>\<rparr>"

definition roleOps :: Role where
  "roleOps =
     \<lparr>role_Name = ''ops'',
      role_Allow = \<lparr>arc_Roles = [''ops-*''], arc_ClaimsToRoles = [], arc_Annotations = []\<rparr>,
      role_Deny = \<lparr>arc_Roles = [''*-root''], arc_ClaimsToRoles = [], arc_Annotations = []\<rparr>,
      role_Options = \<lparr>RequestAccess = ''optional''\<rparr>\<rparr>"

definition plainRole :: "string \<Rightarrow> Role" where
  "plainRole name =
     \<lparr>role_Name = name, role_Allow = noConditions, role_Deny = noConditions,
      role_Options = \<lparr>RequestAccess = ''optional''\<rparr>\<rparr>"

definition roleStrict :: Role where
  "roleStrict =
     \<lparr>role_Name = ''strict'', role_Allow = noConditions, role_Deny = noConditions,
      role_Options = \<lparr>RequestAccess = ''reason''\<rparr>\<rparr>"

definition sampleTraits :: strmap where
  "sampleTraits = [(''team'', [''infra''])]"

definition sampleValidator :: requestValidator where
  "sampleValidator =
     \<lparr>traits = sampleTraits, state = RequestState_PENDING,
      Roles_Allow = [globMatch ''dev-*''], Roles_Deny = [globMatch ''dev-secret''],
      Annotations_Allow = [(''team'', [''infra''])], Annotations_Deny = []\<rparr>"

definition sampleRequest :: AccessRequestV3 where
  "sampleRequest =
     \<lparr>Metadata_Name = ''5b1d2b9e-6f0a-4c55-9d3e-0c2f4a7e8b11'',
      Spec = \<lparr>spec_User = ''alice'', spec_Roles = [''*''], spec_State = RequestState_PENDING,
               spec_Created = 0, spec_Expires = 0, spec_RequestReason = ''on call'',
               spec_ResolveReason = [], spec_ResolveAnnotations = [],
               spec_SystemAnnotations = []\<rparr>\<rparr>"

definition deniedRequest :: AccessRequestV3 where
  "deniedRequest = sampleRequest\<lparr>Spec := (Spec sampleRequest)\<lparr>spec_State := RequestState_DENIED\<rparr>\<rparr>"

definition annotatedValidator :: requestValidator where
  "annotatedValidator =
     sampleValidator
       \<lparr>Annotations_Allow := [(''team'', [''infra'', ''core'']), (''env'', [''prod''])],
        Annotations_Deny := [(''env'', [''prod'', ''dev'']), (''team'', [''core''])]\<rparr>"

definition sampleFilter :: AccessRequestFilter where
  "sampleFilter = \<lparr>f_ID = ''r1'', f_User = ''alice'', f_State = RequestState_PENDING\<rparr>"

definition sampleUser :: User where
  "sampleUser = \<lparr>user_Name = ''alice'', user_Roles = [''base''], user_Traits = sampleTraits\<rparr>"

definition daveUser :: User where
  "daveUser = \<lparr>user_Name = ''dave'', user_Roles = [''strict''], user_Traits = []\<rparr>"

definition carolUser :: User where
  "carolUser = \<lparr>user_Name = ''carol'', user_Roles = [''strict'', ''ghost''], user_Traits = []\<rparr>"

definition sampleCatalogue :: "Role list" where
  "sampleCatalogue = [plainRole ''dev-infra'', plainRole ''dev-secret'', roleBase, roleStrict]"

definition sampleGetter :: UserAndRoleGetter where
  "sampleGetter =
     \<lparr>getter_GetUser = (\<lambda>name withSecrets.
         if name = ''alice'' then Inr sampleUser
         else if name = ''dave'' then Inr daveUser
         else if name = ''carol'' then Inr carolUser
         else Inl (NotFound ''user %q is not found'' [name])),
      getter_GetRole = (\<lambda>name.
         case find (\<lambda>role. role_Name role = name) sampleCatalogue of
           None \<Rightarrow> Inl (NotFound ''role %v is not found'' [name])
         | Some role \<Rightarrow> Inr role),
      getter_GetRoles = Inr sampleCatalogue\<rparr>"

definition expandedRequest :: AccessRequestV3 where
  "expandedRequest =
     sampleRequest\<lparr>Spec := (Spec sampleRequest)
       \<lparr>spec_Roles := [''dev-infra''], spec_SystemAnnotations := [(''team'', [''infra''])]\<rparr>\<rparr>"

definition silentRequest :: AccessRequestV3 where
  "silentRequest =
     sampleRequest\<lparr>Spec := (Spec sampleRequest)
       \<lparr>spec_Roles := [''dev-infra''], spec_RequestReason := []\<rparr>\<rparr>"

definition daveRequest :: AccessRequestV3 where
  "daveRequest =
     sampleRequest\<lparr>Spec := (Spec sampleRequest)\<lparr>spec_User := ''dave'', spec_RequestReason := []\<rparr>\<rparr>"

definition carolRequest :: AccessRequestV3 where
  "carolRequest =
     sampleRequest\<lparr>Spec := (Spec sampleRequest)
       \<lparr>spec_User := ''carol'', spec_Roles := [''dev-infra''], spec_RequestReason := []\<rparr>\<rparr>"

definition roleBaseTrimmed :: Role where
  "roleBaseTrimmed =
     roleBase\<lparr>role_Allow := (role_Allow roleBase)\<lparr>arc_Annotations := [(''team'', [''$team''])]\<rparr>\<rparr>"

section \<open>Properties\<close>

subsection \<open>Matcher lists and what a push appends\<close>

lemma anyMatch_iff: "anyMatch ms name = (\<exists>m \<in> set ms. m name)"
  by (induction ms) auto

lemma anyMatch_append: "anyMatch (xs @ ys) name = (anyMatch xs name \<or> anyMatch ys name)"
  by (auto simp: anyMatch_iff)

lemma appendMatchers_acc:
  "appendMatchers nm ds (ms @ xs) =
     (case appendMatchers nm ds xs of Inl err \<Rightarrow> Inl err | Inr r \<Rightarrow> Inr (ms @ r))"
  by (induction ds arbitrary: xs) (auto split: sum.splits)

lemma appendMatchers_Nil:
  "appendMatchers nm ds ms =
     (case appendMatchers nm ds [] of Inl err \<Rightarrow> Inl err | Inr r \<Rightarrow> Inr (ms @ r))"
  using appendMatchers_acc [of nm ds ms "[]"] by simp

lemma appendMatchers_Inl:
  "appendMatchers newMatcher ds ms = Inl e \<Longrightarrow> \<exists>p \<in> set ds. newMatcher p = Inl e"
  by (induction ds arbitrary: ms) (auto split: sum.splits)

lemma push_Inr:
  assumes "push ext role m = Inr m'"
  shows "\<exists>dn al. roleMatchers ext role Deny (traits m) = Inr dn
           \<and> roleMatchers ext role Allow (traits m) = Inr al
           \<and> Roles_Deny m' = Roles_Deny m @ dn \<and> Roles_Allow m' = Roles_Allow m @ al
           \<and> traits m' = traits m \<and> state m' = state m"
proof -
  let ?nm = "NewMatcher ext"
  let ?dr = "arc_Roles (GetAccessRequestConditions role Deny)"
  let ?dt = "TraitsToRoles ext (GetTraitMappings (GetAccessRequestConditions role Deny)) (traits m)"
  let ?ar = "arc_Roles (GetAccessRequestConditions role Allow)"
  let ?at = "TraitsToRoles ext (GetTraitMappings (GetAccessRequestConditions role Allow)) (traits m)"
  from assms obtain d1 where d1: "appendMatchers ?nm ?dr (Roles_Deny m) = Inr d1"
    by (auto simp: push_def split: sum.splits)
  from assms d1 obtain d2 where d2: "appendMatchers ?nm ?dt d1 = Inr d2"
    by (auto simp: push_def split: sum.splits)
  from assms d1 d2 obtain a1 where a1: "appendMatchers ?nm ?ar (Roles_Allow m) = Inr a1"
    by (auto simp: push_def Let_def split: sum.splits)
  from assms d1 d2 a1 obtain a2 where a2: "appendMatchers ?nm ?at a1 = Inr a2"
    by (auto simp: push_def Let_def split: sum.splits)
  from assms d1 d2 a1 a2 have m': "Roles_Deny m' = d2" "Roles_Allow m' = a2"
      "traits m' = traits m" "state m' = state m"
    by (auto simp: push_def Let_def)
  from d1 obtain x1 where x1: "appendMatchers ?nm ?dr [] = Inr x1" "d1 = Roles_Deny m @ x1"
    using appendMatchers_Nil [of ?nm ?dr "Roles_Deny m"] by (auto split: sum.splits)
  from d2 x1 obtain x2 where x2: "appendMatchers ?nm ?dt x1 = Inr x2" "d2 = Roles_Deny m @ x2"
    using appendMatchers_acc [of ?nm ?dt "Roles_Deny m" x1] by (auto split: sum.splits)
  from a1 obtain y1 where y1: "appendMatchers ?nm ?ar [] = Inr y1" "a1 = Roles_Allow m @ y1"
    using appendMatchers_Nil [of ?nm ?ar "Roles_Allow m"] by (auto split: sum.splits)
  from a2 y1 obtain y2 where y2: "appendMatchers ?nm ?at y1 = Inr y2" "a2 = Roles_Allow m @ y2"
    using appendMatchers_acc [of ?nm ?at "Roles_Allow m" y1] by (auto split: sum.splits)
  have "roleMatchers ext role Deny (traits m) = Inr x2"
    using x1 x2 by (simp add: roleMatchers_def)
  moreover have "roleMatchers ext role Allow (traits m) = Inr y2"
    using y1 y2 by (simp add: roleMatchers_def)
  ultimately show ?thesis using m' x2 y2 by simp
qed

lemma push_Inl:
  assumes "push ext role m = Inl e"
  shows "\<exists>p. NewMatcher ext p = Inl e"
proof -
  from assms have "\<exists>ds ms. appendMatchers (NewMatcher ext) ds ms = Inl e"
    unfolding push_def Let_def by (auto split: sum.splits)
  then show ?thesis using appendMatchers_Inl by blast
qed

lemma push_roleBase:
  "push sampleExt roleBase (newRequestValidator sampleTraits RequestState_PENDING) = Inr sampleValidator"
  by (simp add: push_def sampleExt_def roleBase_def newRequestValidator_def sampleTraits_def
      sampleValidator_def GetAccessRequestConditions_def GetTraitMappings_def sampleNewMatcher_def
      sampleTraitsToRoles_def sampleApplyValueTraits_def IsPending_def mapIndex_def)

subsection \<open>Admission of a role name\<close>

lemma CanRequestRole_iff:
  "CanRequestRole m name =
     (if (\<exists>deny \<in> set (Roles_Deny m). deny name) then False
      else (\<exists>allow \<in> set (Roles_Allow m). allow name))"
  by (auto simp: CanRequestRole_def anyMatch_iff)

text \<open>
  C1. Push any list of roles into a fresh validator. In the state this reaches,
  \<^verbatim>\<open>CanRequestRole\<close> of a name is false when some matcher of the deny list matches the
  name, and otherwise it is true exactly when some matcher of the allow list matches it.
  So a name matched on both lists is refused, and so is a name matched on neither.
\<close>

theorem CanRequestRole_deny_overrides:
  assumes "pushAll ext roles (newRequestValidator tr st) = Inr m"
  shows "CanRequestRole m name =
           (if (\<exists>deny \<in> set (Roles_Deny m). deny name) then False
            else (\<exists>allow \<in> set (Roles_Allow m). allow name))"
  by (rule CanRequestRole_iff)

text \<open>
  On the sample data: the role \<^verbatim>\<open>base\<close> allows \<^verbatim>\<open>dev-*\<close> and denies \<^verbatim>\<open>dev-secret\<close>, so
  \<^verbatim>\<open>dev-secret\<close> is matched on both lists and refused, \<^verbatim>\<open>dev-infra\<close> is admitted and
  \<^verbatim>\<open>prod\<close> is refused by default.
\<close>

theorem CanRequestRole_deny_overrides_witness:
  "pushAll sampleExt [roleBase] (newRequestValidator sampleTraits RequestState_PENDING) = Inr sampleValidator
   \<and> (\<exists>deny \<in> set (Roles_Deny sampleValidator). deny ''dev-secret'')
   \<and> (\<exists>allow \<in> set (Roles_Allow sampleValidator). allow ''dev-secret'')
   \<and> CanRequestRole sampleValidator ''dev-secret'' = False
   \<and> CanRequestRole sampleValidator ''dev-infra'' = True
   \<and> CanRequestRole sampleValidator ''prod'' = False"
proof -
  have h: "pushAll sampleExt [roleBase] (newRequestValidator sampleTraits RequestState_PENDING) = Inr sampleValidator"
    by (simp add: push_roleBase)
  show ?thesis
    using h CanRequestRole_deny_overrides [OF h, of "''dev-secret''"]
      CanRequestRole_deny_overrides [OF h, of "''dev-infra''"]
      CanRequestRole_deny_overrides [OF h, of "''prod''"]
    by (simp add: sampleValidator_def)
qed

subsection \<open>The order of two pushes\<close>

text \<open>
  C5. For two roles and a fresh validator (the same traits and state on both sides), when
  pushing the first and then the second succeeds and pushing the second and then the first
  succeeds, the two validators give the same answer of \<^verbatim>\<open>CanRequestRole\<close> for every name.
\<close>

theorem push_order_independent:
  assumes "pushAll ext [r1, r2] (newRequestValidator tr st) = Inr m12"
    and "pushAll ext [r2, r1] (newRequestValidator tr st) = Inr m21"
  shows "CanRequestRole m12 n = CanRequestRole m21 n"
proof -
  let ?m0 = "newRequestValidator tr st"
  from assms(1) obtain m1 where p1: "push ext r1 ?m0 = Inr m1" and p12: "push ext r2 m1 = Inr m12"
    by (auto split: sum.splits)
  from assms(2) obtain m2 where p2: "push ext r2 ?m0 = Inr m2" and p21: "push ext r1 m2 = Inr m21"
    by (auto split: sum.splits)
  from push_Inr [OF p1] obtain d1 a1 where r1:
    "roleMatchers ext r1 Deny (traits ?m0) = Inr d1" "roleMatchers ext r1 Allow (traits ?m0) = Inr a1"
    "Roles_Deny m1 = Roles_Deny ?m0 @ d1" "Roles_Allow m1 = Roles_Allow ?m0 @ a1"
    "traits m1 = traits ?m0" by blast
  from push_Inr [OF p2] obtain d2 a2 where r2:
    "roleMatchers ext r2 Deny (traits ?m0) = Inr d2" "roleMatchers ext r2 Allow (traits ?m0) = Inr a2"
    "Roles_Deny m2 = Roles_Deny ?m0 @ d2" "Roles_Allow m2 = Roles_Allow ?m0 @ a2"
    "traits m2 = traits ?m0" by blast
  from push_Inr [OF p12] r1(5) r2(1,2) have m12:
    "Roles_Deny m12 = Roles_Deny m1 @ d2" "Roles_Allow m12 = Roles_Allow m1 @ a2" by auto
  from push_Inr [OF p21] r2(5) r1(1,2) have m21:
    "Roles_Deny m21 = Roles_Deny m2 @ d1" "Roles_Allow m21 = Roles_Allow m2 @ a1" by auto
  show ?thesis
    unfolding CanRequestRole_def m12 m21 r1(3,4) r2(3,4)
    by (auto simp: anyMatch_append)
qed

theorem push_order_independent_witness:
  "pushAll sampleExt [roleBase, roleOps] (newRequestValidator sampleTraits RequestState_PENDING) =
     Inr (sampleValidator\<lparr>Roles_Allow := [globMatch ''dev-*'', globMatch ''ops-*''],
                          Roles_Deny := [globMatch ''dev-secret'', globMatch ''*-root'']\<rparr>)
   \<and> pushAll sampleExt [roleOps, roleBase] (newRequestValidator sampleTraits RequestState_PENDING) =
     Inr (sampleValidator\<lparr>Roles_Allow := [globMatch ''ops-*'', globMatch ''dev-*''],
                          Roles_Deny := [globMatch ''*-root'', globMatch ''dev-secret'']\<rparr>)
   \<and> CanRequestRole (sampleValidator\<lparr>Roles_Allow := [globMatch ''dev-*'', globMatch ''ops-*''],
                          Roles_Deny := [globMatch ''dev-secret'', globMatch ''*-root'']\<rparr>) ''ops-root''
     = CanRequestRole (sampleValidator\<lparr>Roles_Allow := [globMatch ''ops-*'', globMatch ''dev-*''],
                          Roles_Deny := [globMatch ''*-root'', globMatch ''dev-secret'']\<rparr>) ''ops-root''"
proof -
  have h1: "pushAll sampleExt [roleBase, roleOps] (newRequestValidator sampleTraits RequestState_PENDING) =
     Inr (sampleValidator\<lparr>Roles_Allow := [globMatch ''dev-*'', globMatch ''ops-*''],
                          Roles_Deny := [globMatch ''dev-secret'', globMatch ''*-root'']\<rparr>)"
    by (simp add: push_roleBase)
       (simp add: push_def sampleExt_def roleOps_def sampleValidator_def sampleTraits_def
          GetAccessRequestConditions_def GetTraitMappings_def sampleNewMatcher_def
          sampleTraitsToRoles_def IsPending_def)
  have h2: "pushAll sampleExt [roleOps, roleBase] (newRequestValidator sampleTraits RequestState_PENDING) =
     Inr (sampleValidator\<lparr>Roles_Allow := [globMatch ''ops-*'', globMatch ''dev-*''],
                          Roles_Deny := [globMatch ''*-root'', globMatch ''dev-secret'']\<rparr>)"
    by (simp add: push_def sampleExt_def roleOps_def roleBase_def sampleValidator_def sampleTraits_def
          newRequestValidator_def GetAccessRequestConditions_def GetTraitMappings_def
          sampleNewMatcher_def sampleTraitsToRoles_def sampleApplyValueTraits_def IsPending_def
          mapIndex_def)
  show ?thesis
    using h1 h2 push_order_independent [OF h1 h2, of "''ops-root''"] by simp
qed

subsection \<open>Annotation templates that do not interpolate\<close>

lemma applyTemplates_append:
  "applyTemplates apply tr (xs @ ys) vals = applyTemplates apply tr ys (applyTemplates apply tr xs vals)"
  by (induction xs arbitrary: vals) (auto split: sum.splits)

lemma applyTemplates_skip:
  assumes "apply d tr = Inl err"
  shows "applyTemplates apply tr (xs @ d # ys) vals = applyTemplates apply tr (xs @ ys) vals"
  using assms by (simp add: applyTemplates_append)

lemma pushAnnotations_append:
  "pushAnnotations apply tr (pre @ post) acc =
     pushAnnotations apply tr post (pushAnnotations apply tr pre acc)"
  by (induction pre arbitrary: acc) auto

lemma pushAnnotations_skip:
  assumes "apply d tr = Inl err"
  shows "pushAnnotations apply tr (pre @ (k, xs @ d # ys) # post) acc =
         pushAnnotations apply tr (pre @ (k, xs @ ys) # post) acc"
  using assms by (simp add: pushAnnotations_append applyTemplates_append)

text \<open>
  What the annotation loop leaves under a key is fixed by the role's annotation map and by
  the accumulator as maps; the order in which the entries are visited does not show.
\<close>

lemma pushAnnotations_lookup:
  assumes "distinct (map fst es)"
  shows "map_of (pushAnnotations apply tr es acc) k =
           (case map_of es k of
              None \<Rightarrow> map_of acc k
            | Some vd \<Rightarrow> Some (mapIndex acc k @ applyTemplates apply tr vd []))"
  using assms
proof (induction es arbitrary: acc)
  case Nil
  then show ?case by simp
next
  case (Cons e rest)
  obtain k' vd where e: "e = (k', vd)" by (cases e)
  from Cons.prems e have fresh: "map_of rest k' = None" and d: "distinct (map fst rest)"
    by (auto simp: map_of_eq_None_iff)
  show ?case
  proof (cases "k = k'")
    case True
    then show ?thesis
      using fresh Cons.IH [OF d] e by (simp add: update_conv')
  next
    case False
    then show ?thesis
      using Cons.IH [OF d] e by (auto simp: update_conv' mapIndex_def split: option.splits)
  qed
qed

text \<open>
  C9. In a validator whose state is PENDING, let the interpolation of the template \<open>d\<close>
  fail. Pushing a role that lists \<open>d\<close> among the deny (or allow) annotation templates of a
  key gives the same result, error or new validator, as pushing the role without \<open>d\<close>:
  the template adds no value to the accumulator of its key and raises no error. Every
  error \<^verbatim>\<open>push\<close> does return is an error of the matcher constructor.
\<close>

theorem push_skips_failed_template:
  assumes pending: "IsPending (state m)"
    and fails: "applyValueTraits ext d (traits m) = Inl err"
  shows "push ext (role\<lparr>role_Deny := (role_Deny role)\<lparr>arc_Annotations := pre @ (k, xs @ d # ys) # post\<rparr>\<rparr>) m
           = push ext (role\<lparr>role_Deny := (role_Deny role)\<lparr>arc_Annotations := pre @ (k, xs @ ys) # post\<rparr>\<rparr>) m
       \<and> push ext (role\<lparr>role_Allow := (role_Allow role)\<lparr>arc_Annotations := pre @ (k, xs @ d # ys) # post\<rparr>\<rparr>) m
           = push ext (role\<lparr>role_Allow := (role_Allow role)\<lparr>arc_Annotations := pre @ (k, xs @ ys) # post\<rparr>\<rparr>) m
       \<and> (\<forall>e. push ext role m = Inl e \<longrightarrow> (\<exists>p. NewMatcher ext p = Inl e))"
proof -
  have skip: "pushAnnotations (applyValueTraits ext) (traits m) (pre @ (k, xs @ d # ys) # post) acc =
              pushAnnotations (applyValueTraits ext) (traits m) (pre @ (k, xs @ ys) # post) acc" for acc
    using fails by (rule pushAnnotations_skip)
  let ?d1 = "role\<lparr>role_Deny := (role_Deny role)\<lparr>arc_Annotations := pre @ (k, xs @ d # ys) # post\<rparr>\<rparr>"
  let ?d2 = "role\<lparr>role_Deny := (role_Deny role)\<lparr>arc_Annotations := pre @ (k, xs @ ys) # post\<rparr>\<rparr>"
  let ?a1 = "role\<lparr>role_Allow := (role_Allow role)\<lparr>arc_Annotations := pre @ (k, xs @ d # ys) # post\<rparr>\<rparr>"
  let ?a2 = "role\<lparr>role_Allow := (role_Allow role)\<lparr>arc_Annotations := pre @ (k, xs @ ys) # post\<rparr>\<rparr>"
  have d_eqs:
    "arc_Roles (GetAccessRequestConditions ?d1 Deny) = arc_Roles (GetAccessRequestConditions ?d2 Deny)"
    "GetTraitMappings (GetAccessRequestConditions ?d1 Deny) = GetTraitMappings (GetAccessRequestConditions ?d2 Deny)"
    "GetAccessRequestConditions ?d1 Allow = GetAccessRequestConditions ?d2 Allow"
    "pushAnnotations (applyValueTraits ext) (traits m)
       (arc_Annotations (GetAccessRequestConditions ?d1 Deny)) acc =
     pushAnnotations (applyValueTraits ext) (traits m)
       (arc_Annotations (GetAccessRequestConditions ?d2 Deny)) acc" for acc
    by (simp_all add: GetAccessRequestConditions_def GetTraitMappings_def skip)
  have a_eqs:
    "arc_Roles (GetAccessRequestConditions ?a1 Allow) = arc_Roles (GetAccessRequestConditions ?a2 Allow)"
    "GetTraitMappings (GetAccessRequestConditions ?a1 Allow) = GetTraitMappings (GetAccessRequestConditions ?a2 Allow)"
    "GetAccessRequestConditions ?a1 Deny = GetAccessRequestConditions ?a2 Deny"
    "pushAnnotations (applyValueTraits ext) (traits m)
       (arc_Annotations (GetAccessRequestConditions ?a1 Allow)) acc =
     pushAnnotations (applyValueTraits ext) (traits m)
       (arc_Annotations (GetAccessRequestConditions ?a2 Allow)) acc" for acc
    by (simp_all add: GetAccessRequestConditions_def GetTraitMappings_def skip)
  have deny: "push ext ?d1 m = push ext ?d2 m"
    unfolding push_def d_eqs ..
  have allow: "push ext ?a1 m = push ext ?a2 m"
    unfolding push_def a_eqs ..
  from deny allow push_Inl show ?thesis by blast
qed

text \<open>
  On the sample data: the trait \<^verbatim>\<open>squad\<close> is unbound, so the template \<^verbatim>\<open>$squad\<close> of the role
  \<^verbatim>\<open>base\<close> is passed over and the push succeeds as it does without the template.
\<close>

theorem push_skips_failed_template_witness:
  "IsPending (state (newRequestValidator sampleTraits RequestState_PENDING))
   \<and> applyValueTraits sampleExt ''$squad'' (traits (newRequestValidator sampleTraits RequestState_PENDING))
       = Inl (NotFound ''variable %q not found in traits'' [''squad''])
   \<and> push sampleExt roleBase (newRequestValidator sampleTraits RequestState_PENDING)
       = push sampleExt roleBaseTrimmed (newRequestValidator sampleTraits RequestState_PENDING)
   \<and> push sampleExt roleBase (newRequestValidator sampleTraits RequestState_PENDING)
       = Inr sampleValidator"
proof -
  have pending: "IsPending (state (newRequestValidator sampleTraits RequestState_PENDING))"
    by (simp add: IsPending_def newRequestValidator_def)
  have fails: "applyValueTraits sampleExt ''$squad'' (traits (newRequestValidator sampleTraits RequestState_PENDING))
       = Inl (NotFound ''variable %q not found in traits'' [''squad''])"
    by (simp add: sampleExt_def sampleApplyValueTraits_def newRequestValidator_def sampleTraits_def)
  have shape: "roleBase\<lparr>role_Allow := (role_Allow roleBase)
                 \<lparr>arc_Annotations := [] @ (''team'', [''$team''] @ ''$squad'' # []) # []\<rparr>\<rparr> = roleBase"
    "roleBase\<lparr>role_Allow := (role_Allow roleBase)
                 \<lparr>arc_Annotations := [] @ (''team'', [''$team''] @ []) # []\<rparr>\<rparr> = roleBaseTrimmed"
    by (simp_all add: roleBase_def roleBaseTrimmed_def)
  show ?thesis
    using pending fails push_roleBase
      push_skips_failed_template [OF pending fails, where role = roleBase and pre = "[]"
        and k = "''team''" and xs = "[''$team'']" and ys = "[]" and post = "[]"]
    unfolding shape by simp
qed

subsection \<open>System annotations\<close>

lemma SliceContainsStr_iff: "SliceContainsStr xs s = (s \<in> set xs)"
  by (induction xs) auto

lemma filterValues_eq:
  "filterValues denied va filtered = filtered @ filter (\<lambda>v. v \<notin> set denied) va"
  by (induction va arbitrary: filtered) (auto simp: SliceContainsStr_iff)

lemma annotationsLoop_lookup:
  assumes "distinct (map fst allow)"
  shows "map_of (annotationsLoop deny allow annotations) k =
           (case map_of allow k of
              None \<Rightarrow> map_of annotations k
            | Some va \<Rightarrow>
                (if filter (\<lambda>v. v \<notin> set (mapIndex deny k)) va = [] then map_of annotations k
                 else Some (filter (\<lambda>v. v \<notin> set (mapIndex deny k)) va)))"
  using assms
proof (induction allow arbitrary: annotations)
  case Nil
  then show ?case by simp
next
  case (Cons e rest)
  obtain k' va where e: "e = (k', va)" by (cases e)
  from Cons.prems e have fresh: "map_of rest k' = None" and d: "distinct (map fst rest)"
    by (auto simp: map_of_eq_None_iff)
  show ?case
  proof (cases "k = k'")
    case True
    then show ?thesis
      using fresh Cons.IH [OF d] e
      by (simp add: filterValues_eq Let_def update_conv')
  next
    case False
    then show ?thesis
      using Cons.IH [OF d] e
      by (auto simp: filterValues_eq Let_def update_conv' split: option.splits)
  qed
qed

lemma annotationsLoop_distinct:
  "distinct (map fst annotations) \<Longrightarrow> distinct (map fst (annotationsLoop deny allow annotations))"
  by (induction allow arbitrary: annotations) (auto simp: Let_def distinct_update)

text \<open>
  The keys of both annotation accumulators are distinct in every state that pushes reach
  from a fresh validator, as the keys of a Go map are.
\<close>

lemma pushAnnotations_distinct:
  "distinct (map fst acc) \<Longrightarrow> distinct (map fst (pushAnnotations apply tr es acc))"
  by (induction es arbitrary: acc) (auto simp: distinct_update)

lemma push_distinct:
  assumes "push ext role m = Inr m'"
    and "distinct (map fst (Annotations_Allow m))" and "distinct (map fst (Annotations_Deny m))"
  shows "distinct (map fst (Annotations_Allow m')) \<and> distinct (map fst (Annotations_Deny m'))"
  using assms
  by (auto simp: push_def Let_def pushAnnotations_distinct split: sum.splits if_splits)

lemma pushAll_distinct:
  assumes "pushAll ext roles m = Inr m'"
    and "distinct (map fst (Annotations_Allow m))" and "distinct (map fst (Annotations_Deny m))"
  shows "distinct (map fst (Annotations_Allow m')) \<and> distinct (map fst (Annotations_Deny m'))"
  using assms
proof (induction roles arbitrary: m)
  case Nil
  then show ?case by simp
next
  case (Cons role roles)
  from Cons.prems(1) obtain m1 where m1: "push ext role m = Inr m1"
    and rest: "pushAll ext roles m1 = Inr m'"
    by (auto split: sum.splits)
  from push_distinct [OF m1 Cons.prems(2,3)] Cons.IH [OF rest] show ?case by blast
qed

lemma reachable_distinct:
  assumes "pushAll ext roles (newRequestValidator tr st) = Inr m"
  shows "distinct (map fst (Annotations_Allow m)) \<and> distinct (map fst (Annotations_Deny m))"
  using pushAll_distinct [OF assms] by (simp add: newRequestValidator_def)

text \<open>
  C3. For a validator whose allow accumulator is a map (its keys are distinct),
  \<^verbatim>\<open>SystemAnnotations\<close> holds a key exactly when the allow accumulator holds it and some
  allow value of the key is not among the deny values of the same key; the key then maps
  to the allow values, in their order, that are not among the deny values. So no key of
  the result has all its allow values among its deny values, and the result is a map.
\<close>

theorem SystemAnnotations_allow_minus_deny:
  assumes "distinct (map fst (Annotations_Allow m))"
  shows "map_of (SystemAnnotations m) k =
           (case map_of (Annotations_Allow m) k of
              None \<Rightarrow> None
            | Some va \<Rightarrow>
                (if filter (\<lambda>v. v \<notin> set (mapIndex (Annotations_Deny m) k)) va = [] then None
                 else Some (filter (\<lambda>v. v \<notin> set (mapIndex (Annotations_Deny m) k)) va)))
       \<and> (k \<in> dom (map_of (SystemAnnotations m)) \<longrightarrow>
            \<not> set (mapIndex (Annotations_Allow m) k) \<subseteq> set (mapIndex (Annotations_Deny m) k))
       \<and> distinct (map fst (SystemAnnotations m))"
proof -
  have look: "map_of (SystemAnnotations m) k =
           (case map_of (Annotations_Allow m) k of
              None \<Rightarrow> None
            | Some va \<Rightarrow>
                (if filter (\<lambda>v. v \<notin> set (mapIndex (Annotations_Deny m) k)) va = [] then None
                 else Some (filter (\<lambda>v. v \<notin> set (mapIndex (Annotations_Deny m) k)) va)))"
    using annotationsLoop_lookup [OF assms, of "Annotations_Deny m" "[]" k]
    by (auto simp: SystemAnnotations_def split: option.splits)
  have cover: "k \<in> dom (map_of (SystemAnnotations m)) \<longrightarrow>
            \<not> set (mapIndex (Annotations_Allow m) k) \<subseteq> set (mapIndex (Annotations_Deny m) k)"
  proof
    assume "k \<in> dom (map_of (SystemAnnotations m))"
    then obtain vs where vs: "map_of (SystemAnnotations m) k = Some vs" by auto
    with look obtain va where va: "map_of (Annotations_Allow m) k = Some va"
      and ne: "filter (\<lambda>v. v \<notin> set (mapIndex (Annotations_Deny m) k)) va \<noteq> []"
      by (auto split: option.splits if_splits)
    from ne obtain v where "v \<in> set va" "v \<notin> set (mapIndex (Annotations_Deny m) k)"
      by (auto simp: filter_empty_conv)
    with va show "\<not> set (mapIndex (Annotations_Allow m) k) \<subseteq> set (mapIndex (Annotations_Deny m) k)"
      by (auto simp: mapIndex_def)
  qed
  have "distinct (map fst (SystemAnnotations m))"
    by (simp add: SystemAnnotations_def annotationsLoop_distinct)
  with look cover show ?thesis by blast
qed

theorem SystemAnnotations_allow_minus_deny_witness:
  "distinct (map fst (Annotations_Allow annotatedValidator))
   \<and> map_of (SystemAnnotations annotatedValidator) ''team'' = Some [''infra'']
   \<and> ''team'' \<in> dom (map_of (SystemAnnotations annotatedValidator))
   \<and> \<not> set (mapIndex (Annotations_Allow annotatedValidator) ''team'')
         \<subseteq> set (mapIndex (Annotations_Deny annotatedValidator) ''team'')
   \<and> map_of (SystemAnnotations annotatedValidator) ''env'' = None"
proof -
  have h: "distinct (map fst (Annotations_Allow annotatedValidator))"
    by (simp add: annotatedValidator_def)
  show ?thesis
    using h SystemAnnotations_allow_minus_deny [OF h, of "''team''"]
      SystemAnnotations_allow_minus_deny [OF h, of "''env''"]
    by (auto simp: annotatedValidator_def mapIndex_def)
qed

subsection \<open>A denied request stays denied\<close>

text \<open>
  C4. On a request whose state is DENIED, \<^verbatim>\<open>SetState\<close> returns no error exactly when the
  target is DENIED; for every other target it returns the BadParameter error
  \<^verbatim>\<open>cannot set request-state %q (already denied)\<close>. In both cases the request, and with it
  the stored state DENIED, is left as it was.
\<close>

theorem SetState_denied:
  assumes "IsDenied (GetState r)"
  shows "SetState String target r =
           (r, if target = RequestState_DENIED then None
               else Some (BadParameter ''cannot set request-state %q (already denied)'' [String target]))
         \<and> GetState (fst (SetState String target r)) = RequestState_DENIED"
  using assms by (simp add: SetState_def GetState_def IsDenied_def)

theorem SetState_denied_witness:
  "IsDenied (GetState deniedRequest)
   \<and> SetState sampleString RequestState_DENIED deniedRequest = (deniedRequest, None)
   \<and> SetState sampleString RequestState_APPROVED deniedRequest =
       (deniedRequest, Some (BadParameter ''cannot set request-state %q (already denied)'' [''APPROVED'']))
   \<and> SetState sampleString RequestState_PENDING deniedRequest =
       (deniedRequest, Some (BadParameter ''cannot set request-state %q (already denied)'' [''PENDING'']))"
proof -
  have h: "IsDenied (GetState deniedRequest)"
    by (simp add: IsDenied_def GetState_def deniedRequest_def)
  show ?thesis
    using h SetState_denied [OF h, of sampleString RequestState_DENIED]
      SetState_denied [OF h, of sampleString RequestState_APPROVED]
      SetState_denied [OF h, of sampleString RequestState_PENDING]
    by (simp add: sampleString_def RequestState_DENIED_def RequestState_APPROVED_def
        RequestState_PENDING_def RequestState_NONE_def)
qed

subsection \<open>The map encoding of a filter\<close>

lemma ParseLoop_found:
  "inj_on String (set vs) \<Longrightarrow> s \<in> set vs \<Longrightarrow> ParseLoop String (String s) vs = Inr s"
  by (induction vs) (auto simp: inj_on_def)

lemma keys_distinct: "keyID \<noteq> keyUser" "keyID \<noteq> keyState" "keyUser \<noteq> keyState"
  by (simp_all add: keyID_def keyUser_def keyState_def)

lemma FromMap_ok:
  assumes "distinct (map fst es)"
    and "fst ` set es \<subseteq> {keyID, keyUser, keyState}"
    and "\<And>v. map_of es keyState = Some v \<Longrightarrow> Parse String v = Inr s"
  shows "FromMap String es g =
           (\<lparr>f_ID = (case map_of es keyID of None \<Rightarrow> f_ID g | Some v \<Rightarrow> v),
             f_User = (case map_of es keyUser of None \<Rightarrow> f_User g | Some v \<Rightarrow> v),
             f_State = (case map_of es keyState of None \<Rightarrow> f_State g | Some v \<Rightarrow> s)\<rparr>, None)"
  using assms
proof (induction es arbitrary: g)
  case Nil
  then show ?case by simp
next
  case (Cons e rest)
  obtain key val where e: "e = (key, val)" by (cases e)
  from Cons.prems(1) e have fresh: "map_of rest key = None" and d: "distinct (map fst rest)"
    by (auto simp: map_of_eq_None_iff)
  from Cons.prems(2) e have key: "key \<in> {keyID, keyUser, keyState}"
    and sub: "fst ` set rest \<subseteq> {keyID, keyUser, keyState}" by auto
  have p: "Parse String v = Inr s" if "map_of rest keyState = Some v" for v
  proof -
    from that fresh have "keyState \<noteq> key" by auto
    with that Cons.prems(3) [of v] e show ?thesis by simp
  qed
  note IH = Cons.IH [OF d sub p]
  from key consider "key = keyID" | "key = keyUser" | "key = keyState" by auto
  then show ?case
  proof cases
    case 1
    then show ?thesis using IH fresh e keys_distinct by (simp split: option.splits)
  next
    case 2
    then show ?thesis using IH fresh e keys_distinct by (simp split: option.splits)
  next
    case 3
    moreover from 3 e Cons.prems(3) have "Parse String val = Inr s" by simp
    ultimately show ?thesis using IH fresh e keys_distinct by (simp split: option.splits)
  qed
qed

lemma IntoMap_lookup:
  "map_of (IntoMap String f) k =
     (if k = keyState \<and> \<not> IsNone (f_State f) then Some (String (f_State f))
      else if k = keyUser \<and> f_User f \<noteq> [] then Some (f_User f)
      else if k = keyID \<and> f_ID f \<noteq> [] then Some (f_ID f)
      else None)"
  using keys_distinct by (auto simp: IntoMap_def Let_def update_conv')

text \<open>
  C10. Let \<^verbatim>\<open>String\<close> give the four states four different names, and let the state of the
  filter \<open>f\<close> be one of the four. In whatever order \<^verbatim>\<open>FromMap\<close> visits the entries of
  the map \<^verbatim>\<open>f.IntoMap()\<close>, starting from the zero filter it returns no error and a filter
  that \<^verbatim>\<open>Equals\<close> \<open>f\<close>.
\<close>

theorem filter_map_roundtrip:
  assumes inj: "inj_on String (set stateVariants)"
    and st: "f_State f \<in> set stateVariants"
    and dist: "distinct (map fst es)"
    and enum: "map_of es = map_of (IntoMap String f)"
  shows "\<exists>f'. FromMap String es zeroFilter = (f', None) \<and> Equals f' f"
proof -
  have look: "\<And>k. map_of es k =
     (if k = keyState \<and> \<not> IsNone (f_State f) then Some (String (f_State f))
      else if k = keyUser \<and> f_User f \<noteq> [] then Some (f_User f)
      else if k = keyID \<and> f_ID f \<noteq> [] then Some (f_ID f)
      else None)"
    by (simp only: enum IntoMap_lookup)
  have sub: "fst ` set es \<subseteq> {keyID, keyUser, keyState}"
  proof
    fix k assume "k \<in> fst ` set es"
    then have "map_of es k \<noteq> None" by (simp add: map_of_eq_None_iff)
    with look [of k] show "k \<in> {keyID, keyUser, keyState}" by (auto split: if_splits)
  qed
  have p: "\<And>v. map_of es keyState = Some v \<Longrightarrow> Parse String v = Inr (f_State f)"
    using look [of keyState] ParseLoop_found [OF inj st] keys_distinct
    by (auto simp: Parse_def split: if_splits)
  have "FromMap String es zeroFilter =
           (\<lparr>f_ID = (case map_of es keyID of None \<Rightarrow> f_ID zeroFilter | Some v \<Rightarrow> v),
             f_User = (case map_of es keyUser of None \<Rightarrow> f_User zeroFilter | Some v \<Rightarrow> v),
             f_State = (case map_of es keyState of None \<Rightarrow> f_State zeroFilter | Some v \<Rightarrow> f_State f)\<rparr>, None)"
    by (rule FromMap_ok [OF dist sub p])
  moreover have "Equals \<lparr>f_ID = (case map_of es keyID of None \<Rightarrow> f_ID zeroFilter | Some v \<Rightarrow> v),
             f_User = (case map_of es keyUser of None \<Rightarrow> f_User zeroFilter | Some v \<Rightarrow> v),
             f_State = (case map_of es keyState of None \<Rightarrow> f_State zeroFilter | Some v \<Rightarrow> f_State f)\<rparr> f"
    using keys_distinct
    by (auto simp: Equals_def look zeroFilter_def IsNone_def RequestState_NONE_def)
  ultimately show ?thesis by blast
qed

theorem filter_map_roundtrip_witness:
  "inj_on sampleString (set stateVariants)
   \<and> f_State sampleFilter \<in> set stateVariants
   \<and> distinct (map fst [(''state'', ''PENDING''), (''id'', ''r1''), (''user'', ''alice'')])
   \<and> map_of [(''state'', ''PENDING''), (''id'', ''r1''), (''user'', ''alice'')] =
       map_of (IntoMap sampleString sampleFilter)
   \<and> (\<exists>f'. FromMap sampleString [(''state'', ''PENDING''), (''id'', ''r1''), (''user'', ''alice'')]
              zeroFilter = (f', None) \<and> Equals f' sampleFilter)"
proof -
  have inj: "inj_on sampleString (set stateVariants)"
    by (simp add: stateVariants_def sampleString_def RequestState_DENIED_def
        RequestState_APPROVED_def RequestState_PENDING_def RequestState_NONE_def)
  have st: "f_State sampleFilter \<in> set stateVariants"
    by (simp add: stateVariants_def sampleFilter_def)
  have dist: "distinct (map fst [(''state'', ''PENDING''), (''id'', ''r1''), (''user'', ''alice'')])"
    by simp
  have enum: "map_of [(''state'', ''PENDING''), (''id'', ''r1''), (''user'', ''alice'')] =
       map_of (IntoMap sampleString sampleFilter)"
    by (auto simp: fun_eq_iff IntoMap_def sampleFilter_def sampleString_def keyID_def keyUser_def
        keyState_def IsNone_def RequestState_PENDING_def RequestState_NONE_def)
  show ?thesis
    using inj st dist enum filter_map_roundtrip [OF inj st dist enum] by simp
qed

subsection \<open>Validation\<close>

lemma heldRoles_iff: "heldRoles names held n = (held n \<or> n \<in> set names)"
  by (induction names arbitrary: held) auto

lemma expandRolesLoop_eq:
  "expandRolesLoop held validator roles expanded =
     expanded @ filter (\<lambda>n. \<not> held n \<and> CanRequestRole validator n) (map role_Name roles)"
  by (induction roles arbitrary: expanded) (auto simp: Let_def)

lemma checkRoles_None_iff:
  "checkRoles validator user roles = None \<longleftrightarrow> (\<forall>r \<in> set roles. CanRequestRole validator r)"
  by (induction roles) auto

lemma pushUserRoles_requireReason:
  "pushUserRoles ext getter names validator rr = Inr (validator', rr') \<Longrightarrow>
     rr' = (rr \<or> (\<exists>n \<in> set names. \<exists>role. getter_GetRole getter n = Inr role
                     \<and> RequestAccess (GetOptions role) = RequestStrategyReason))"
proof (induction names arbitrary: validator rr)
  case Nil
  then show ?case by simp
next
  case (Cons n names)
  from Cons.prems obtain role v1 where role: "getter_GetRole getter n = Inr role"
    and v1: "push ext role validator = Inr v1"
    and rest: "pushUserRoles ext getter names v1
                 (if RequestAccess (GetOptions role) = RequestStrategyReason then True else rr)
               = Inr (validator', rr')"
    by (auto split: sum.splits)
  from Cons.IH [OF rest] role show ?case by auto
qed

lemma resolveWildcard_fields:
  "resolveWildcard getter user validator req expandRoles = Inr req1 \<Longrightarrow>
     GetUser req1 = GetUser req \<and> GetState req1 = GetState req
     \<and> GetRequestReason req1 = GetRequestReason req"
  by (auto simp: resolveWildcard_def SetRoles_def GetUser_def GetState_def GetRequestReason_def
      split: if_splits sum.splits)

text \<open>The sample data, evaluated.\<close>

lemma sampleGetter_user: "getter_GetUser sampleGetter (GetUser sampleRequest) False = Inr sampleUser"
  by (simp add: sampleGetter_def GetUser_def sampleRequest_def)

lemma sampleGetter_base: "getter_GetRole sampleGetter ''base'' = Inr roleBase"
  by (simp add: sampleGetter_def sampleCatalogue_def plainRole_def roleBase_def)

lemma sampleGetter_strict: "getter_GetRole sampleGetter ''strict'' = Inr roleStrict"
  by (simp add: sampleGetter_def sampleCatalogue_def plainRole_def roleBase_def roleStrict_def)

lemma sampleGetter_ghost:
  "getter_GetRole sampleGetter ''ghost'' = Inl (NotFound ''role %v is not found'' [''ghost''])"
  by (simp add: sampleGetter_def sampleCatalogue_def plainRole_def roleBase_def roleStrict_def)

lemma push_roleStrict:
  "push sampleExt roleStrict (newRequestValidator [] RequestState_PENDING) =
     Inr (newRequestValidator [] RequestState_PENDING)"
  by (simp add: push_def sampleExt_def roleStrict_def noConditions_def newRequestValidator_def
      GetAccessRequestConditions_def GetTraitMappings_def sampleTraitsToRoles_def IsPending_def)

lemma pushUserRoles_dave:
  "pushUserRoles sampleExt sampleGetter (user_Roles daveUser)
     (newRequestValidator (user_Traits daveUser) RequestState_PENDING) False
   = Inr (newRequestValidator [] RequestState_PENDING, True)"
  by (simp add: daveUser_def sampleGetter_strict push_roleStrict)
     (simp add: roleStrict_def GetOptions_def RequestStrategyReason_def)

lemma sampleGetter_dave: "getter_GetUser sampleGetter (GetUser daveRequest) False = Inr daveUser"
  by (simp add: sampleGetter_def GetUser_def daveRequest_def sampleRequest_def)

lemma daveRequest_fields:
  "GetState daveRequest = RequestState_PENDING" "GetRequestReason daveRequest = []"
  "GetRoles daveRequest = [''*'']"
  by (simp_all add: GetState_def GetRequestReason_def GetRoles_def daveRequest_def sampleRequest_def)

lemma pushUserRoles_sample:
  "pushUserRoles sampleExt sampleGetter (user_Roles sampleUser)
     (newRequestValidator (user_Traits sampleUser) RequestState_PENDING) False
   = Inr (sampleValidator, True)"
  by (simp add: sampleUser_def sampleGetter_base push_roleBase)
     (simp add: roleBase_def GetOptions_def RequestStrategyReason_def)

lemma CanRequestRole_sample:
  "CanRequestRole sampleValidator ''dev-infra''"
  "\<not> CanRequestRole sampleValidator ''dev-secret''"
  "\<not> CanRequestRole sampleValidator ''base''"
  "\<not> CanRequestRole sampleValidator ''strict''"
  by (simp_all add: CanRequestRole_def sampleValidator_def)

lemma SystemAnnotations_sample: "SystemAnnotations sampleValidator = [(''team'', [''infra''])]"
  by (simp add: SystemAnnotations_def sampleValidator_def mapIndex_def)

lemma validate_sampleRequest:
  "ValidateAccessRequest sampleExt sampleGetter sampleRequest True = (expandedRequest, None)"
proof -
  have st: "GetState sampleRequest = RequestState_PENDING"
    by (simp add: GetState_def sampleRequest_def)
  have res: "resolveWildcard sampleGetter sampleUser sampleValidator sampleRequest True
             = Inr (SetRoles [''dev-infra''] sampleRequest)"
    by (simp add: resolveWildcard_def isWildcard_def GetRoles_def sampleRequest_def
        sampleGetter_def sampleCatalogue_def sampleUser_def plainRole_def roleBase_def
        roleStrict_def CanRequestRole_sample SetRoles_def)
  show ?thesis
    unfolding ValidateAccessRequest_def sampleGetter_user sum.case st pushUserRoles_sample
      prod.case res
    by (simp add: GetRequestReason_def GetRoles_def GetUser_def GetState_def SetRoles_def
        sampleRequest_def CanRequestRole_sample IsPending_def SetSystemAnnotations_def
        SystemAnnotations_sample expandedRequest_def)
qed

subsection \<open>The request reason\<close>

text \<open>
  C7, as the code has it. Let the requesting user be found, let one of the roles the user
  holds be fetched with the request-access option \<^verbatim>\<open>reason\<close>, and let the request reason
  be empty. Then \<^verbatim>\<open>ValidateAccessRequest\<close> fails and returns the request as it received it,
  whatever the role list, the flag \<^verbatim>\<open>expandRoles\<close> and the role catalogue are: neither the
  wildcard block nor the admission checks are reached. When every role the user holds is
  fetched and pushed without error, the error is BadParameter
  \<^verbatim>\<open>request reason must be specified\<close>.
\<close>

theorem reason_required:
  assumes user: "getter_GetUser getter (GetUser req) False = Inr user"
    and held: "roleName \<in> set (user_Roles user)"
    and role: "getter_GetRole getter roleName = Inr role"
    and opt: "RequestAccess (GetOptions role) = ''reason''"
    and empty: "GetRequestReason req = []"
  shows "(\<exists>err. ValidateAccessRequest ext getter req expandRoles = (req, Some err))
       \<and> (\<forall>validator requireReason.
            pushUserRoles ext getter (user_Roles user)
               (newRequestValidator (user_Traits user) (GetState req)) False
              = Inr (validator, requireReason) \<longrightarrow>
            ValidateAccessRequest ext getter req expandRoles =
              (req, Some (BadParameter ''request reason must be specified'' [])))"
proof -
  have reached: "ValidateAccessRequest ext getter req expandRoles =
              (req, Some (BadParameter ''request reason must be specified'' []))"
    if pushed: "pushUserRoles ext getter (user_Roles user)
               (newRequestValidator (user_Traits user) (GetState req)) False
              = Inr (validator, requireReason)"
    for validator requireReason
  proof -
    from pushUserRoles_requireReason [OF pushed] held role opt have "requireReason"
      by (auto simp: RequestStrategyReason_def)
    then show ?thesis
      using user pushed empty by (simp add: ValidateAccessRequest_def)
  qed
  have always: "\<exists>err. ValidateAccessRequest ext getter req expandRoles = (req, Some err)"
  proof (cases "pushUserRoles ext getter (user_Roles user)
               (newRequestValidator (user_Traits user) (GetState req)) False")
    case (Inl err)
    then show ?thesis using user by (simp add: ValidateAccessRequest_def)
  next
    case (Inr p)
    then show ?thesis using reached [of "fst p" "snd p"] by simp
  qed
  from always reached show ?thesis by blast
qed

text \<open>
  On the sample data: alice holds \<^verbatim>\<open>base\<close>, whose option is \<^verbatim>\<open>reason\<close>, and asks for
  \<^verbatim>\<open>dev-infra\<close> without a reason.
\<close>

theorem reason_required_witness:
  "getter_GetUser sampleGetter (GetUser silentRequest) False = Inr sampleUser
   \<and> ''base'' \<in> set (user_Roles sampleUser)
   \<and> getter_GetRole sampleGetter ''base'' = Inr roleBase
   \<and> RequestAccess (GetOptions roleBase) = ''reason''
   \<and> GetRequestReason silentRequest = []
   \<and> pushUserRoles sampleExt sampleGetter (user_Roles sampleUser)
       (newRequestValidator (user_Traits sampleUser) (GetState silentRequest)) False
     = Inr (sampleValidator, True)
   \<and> ValidateAccessRequest sampleExt sampleGetter silentRequest False =
       (silentRequest, Some (BadParameter ''request reason must be specified'' []))"
proof -
  have user: "getter_GetUser sampleGetter (GetUser silentRequest) False = Inr sampleUser"
    by (simp add: sampleGetter_def GetUser_def silentRequest_def sampleRequest_def)
  have st: "GetState silentRequest = RequestState_PENDING"
    by (simp add: GetState_def silentRequest_def sampleRequest_def)
  have pushed: "pushUserRoles sampleExt sampleGetter (user_Roles sampleUser)
       (newRequestValidator (user_Traits sampleUser) (GetState silentRequest)) False
     = Inr (sampleValidator, True)"
    by (simp add: st pushUserRoles_sample)
  have held: "''base'' \<in> set (user_Roles sampleUser)"
    by (simp add: sampleUser_def)
  have opt: "RequestAccess (GetOptions roleBase) = ''reason''"
    by (simp add: GetOptions_def roleBase_def)
  have empty: "GetRequestReason silentRequest = []"
    by (simp add: GetRequestReason_def silentRequest_def)
  from reason_required [OF user held sampleGetter_base opt empty, of sampleExt False] pushed
  have "ValidateAccessRequest sampleExt sampleGetter silentRequest False =
       (silentRequest, Some (BadParameter ''request reason must be specified'' []))"
    by blast
  with user held sampleGetter_base opt empty pushed show ?thesis by simp
qed

text \<open>
  C7 as the claim words it names the error without asking that the other roles load.
  Carol holds \<^verbatim>\<open>strict\<close>, whose option is \<^verbatim>\<open>reason\<close>, and a role \<^verbatim>\<open>ghost\<close> that the
  getter does not know; her request has no reason. The loop over her roles ends at
  \<^verbatim>\<open>ghost\<close> with the getter's error, and that error is returned, not the BadParameter of
  the claim.
\<close>

theorem reason_required_counterexample:
  "getter_GetUser sampleGetter (GetUser carolRequest) False = Inr carolUser
   \<and> ''strict'' \<in> set (user_Roles carolUser)
   \<and> getter_GetRole sampleGetter ''strict'' = Inr roleStrict
   \<and> RequestAccess (GetOptions roleStrict) = ''reason''
   \<and> GetRequestReason carolRequest = []
   \<and> ValidateAccessRequest sampleExt sampleGetter carolRequest False =
       (carolRequest, Some (NotFound ''role %v is not found'' [''ghost'']))
   \<and> ValidateAccessRequest sampleExt sampleGetter carolRequest False \<noteq>
       (carolRequest, Some (BadParameter ''request reason must be specified'' []))"
proof -
  have user: "getter_GetUser sampleGetter (GetUser carolRequest) False = Inr carolUser"
    by (simp add: sampleGetter_def GetUser_def carolRequest_def sampleRequest_def)
  have st: "GetState carolRequest = RequestState_PENDING"
    by (simp add: GetState_def carolRequest_def sampleRequest_def)
  have loop: "pushUserRoles sampleExt sampleGetter (user_Roles carolUser)
       (newRequestValidator (user_Traits carolUser) (GetState carolRequest)) False
     = Inl (NotFound ''role %v is not found'' [''ghost''])"
    by (simp add: st carolUser_def sampleGetter_strict push_roleStrict sampleGetter_ghost)
  have run: "ValidateAccessRequest sampleExt sampleGetter carolRequest False =
       (carolRequest, Some (NotFound ''role %v is not found'' [''ghost'']))"
    by (simp add: ValidateAccessRequest_def user loop)
  have held: "''strict'' \<in> set (user_Roles carolUser)"
    by (simp add: carolUser_def)
  have opt: "RequestAccess (GetOptions roleStrict) = ''reason''"
    by (simp add: GetOptions_def roleStrict_def)
  have empty: "GetRequestReason carolRequest = []"
    by (simp add: GetRequestReason_def carolRequest_def)
  from user held sampleGetter_strict opt empty run show ?thesis by simp
qed

subsection \<open>A wildcard request without expansion\<close>

text \<open>
  C6, as the code has it. Called with \<^verbatim>\<open>expandRoles = false\<close> on a request whose role list
  is the single entry \<^verbatim>\<open>*\<close>, \<^verbatim>\<open>ValidateAccessRequest\<close> fails and returns the request as it
  received it, role list and annotations included. When the user is found, every role the
  user holds is fetched and pushed, and the reason check passes, the error is BadParameter
  \<^verbatim>\<open>unexpected wildcard access request\<close>.
\<close>

theorem wildcard_without_expansion:
  assumes wild: "GetRoles req = [''*'']"
  shows "(\<exists>err. ValidateAccessRequest ext getter req False = (req, Some err))
       \<and> (\<forall>user validator requireReason.
            getter_GetUser getter (GetUser req) False = Inr user \<longrightarrow>
            pushUserRoles ext getter (user_Roles user)
               (newRequestValidator (user_Traits user) (GetState req)) False
              = Inr (validator, requireReason) \<longrightarrow>
            \<not> (requireReason \<and> GetRequestReason req = []) \<longrightarrow>
            ValidateAccessRequest ext getter req False =
              (req, Some (BadParameter ''unexpected wildcard access request'' [])))"
proof -
  have res: "resolveWildcard getter user validator req False =
          Inl (BadParameter ''unexpected wildcard access request'' [])" for user validator
    using wild by (simp add: resolveWildcard_def isWildcard_def)
  have always: "\<exists>err. ValidateAccessRequest ext getter req False = (req, Some err)"
    using res by (auto simp: ValidateAccessRequest_def split: sum.splits prod.splits)
  have reached: "ValidateAccessRequest ext getter req False =
              (req, Some (BadParameter ''unexpected wildcard access request'' []))"
    if "getter_GetUser getter (GetUser req) False = Inr user"
      and "pushUserRoles ext getter (user_Roles user)
               (newRequestValidator (user_Traits user) (GetState req)) False
              = Inr (validator, requireReason)"
      and "\<not> (requireReason \<and> GetRequestReason req = [])"
    for user validator requireReason
    using that res by (auto simp: ValidateAccessRequest_def)
  from always reached show ?thesis by blast
qed

text \<open>On the sample data: alice sends the wildcard with a reason.\<close>

theorem wildcard_without_expansion_witness:
  "GetRoles sampleRequest = [''*'']
   \<and> getter_GetUser sampleGetter (GetUser sampleRequest) False = Inr sampleUser
   \<and> pushUserRoles sampleExt sampleGetter (user_Roles sampleUser)
       (newRequestValidator (user_Traits sampleUser) (GetState sampleRequest)) False
     = Inr (sampleValidator, True)
   \<and> GetRequestReason sampleRequest \<noteq> []
   \<and> ValidateAccessRequest sampleExt sampleGetter sampleRequest False =
       (sampleRequest, Some (BadParameter ''unexpected wildcard access request'' []))"
proof -
  have st: "GetState sampleRequest = RequestState_PENDING"
    by (simp add: GetState_def sampleRequest_def)
  have pushed: "pushUserRoles sampleExt sampleGetter (user_Roles sampleUser)
       (newRequestValidator (user_Traits sampleUser) (GetState sampleRequest)) False
     = Inr (sampleValidator, True)"
    by (simp add: st pushUserRoles_sample)
  have reason: "\<not> (True \<and> GetRequestReason sampleRequest = [])"
    by (simp add: GetRequestReason_def sampleRequest_def)
  have wild: "GetRoles sampleRequest = [''*'']"
    by (simp add: GetRoles_def sampleRequest_def)
  from wildcard_without_expansion [OF wild, where ext = sampleExt and getter = sampleGetter]
    sampleGetter_user pushed reason
  have "ValidateAccessRequest sampleExt sampleGetter sampleRequest False =
       (sampleRequest, Some (BadParameter ''unexpected wildcard access request'' []))"
    by blast
  with wild sampleGetter_user pushed reason show ?thesis by simp
qed

text \<open>
  C6 as the claim words it names the wildcard error for every such call. Dave holds
  \<^verbatim>\<open>strict\<close>, whose option is \<^verbatim>\<open>reason\<close>; he sends the wildcard without a reason and
  \<^verbatim>\<open>expandRoles\<close> is false. The reason check comes first and its error is returned.
\<close>

theorem wildcard_without_expansion_counterexample:
  "GetRoles daveRequest = [''*'']
   \<and> ValidateAccessRequest sampleExt sampleGetter daveRequest False =
       (daveRequest, Some (BadParameter ''request reason must be specified'' []))
   \<and> ValidateAccessRequest sampleExt sampleGetter daveRequest False \<noteq>
       (daveRequest, Some (BadParameter ''unexpected wildcard access request'' []))"
proof -
  have run: "ValidateAccessRequest sampleExt sampleGetter daveRequest False =
       (daveRequest, Some (BadParameter ''request reason must be specified'' []))"
    by (simp add: ValidateAccessRequest_def sampleGetter_dave daveRequest_fields pushUserRoles_dave)
  from daveRequest_fields(3) run show ?thesis by simp
qed

subsection \<open>Wildcard expansion\<close>

text \<open>
  C2, as the code has it. Let the user be found, every role the user holds be fetched and
  pushed, the reason check pass and the listing of the catalogue succeed. Called with
  \<^verbatim>\<open>expandRoles = true\<close> on a request whose role list is the single entry \<^verbatim>\<open>*\<close>,
  \<^verbatim>\<open>ValidateAccessRequest\<close> returns no error and a request whose role list is the names of
  the catalogue, in its order, that the user does not hold and that \<^verbatim>\<open>CanRequestRole\<close>
  admits. The list may be empty: no error is returned in that case either.
\<close>

theorem wildcard_expansion:
  assumes user: "getter_GetUser getter (GetUser req) False = Inr user"
    and pushed: "pushUserRoles ext getter (user_Roles user)
                   (newRequestValidator (user_Traits user) (GetState req)) False
                 = Inr (validator, requireReason)"
    and reason: "\<not> (requireReason \<and> GetRequestReason req = [])"
    and wild: "GetRoles req = [''*'']"
    and cat: "getter_GetRoles getter = Inr allRoles"
  shows "\<exists>req'. ValidateAccessRequest ext getter req True = (req', None)
           \<and> GetRoles req' =
               filter (\<lambda>n. n \<notin> set (user_Roles user) \<and> CanRequestRole validator n)
                 (map role_Name allRoles)"
proof -
  let ?expanded = "filter (\<lambda>n. n \<notin> set (user_Roles user) \<and> CanRequestRole validator n)
                     (map role_Name allRoles)"
  have res: "resolveWildcard getter user validator req True = Inr (SetRoles ?expanded req)"
    using wild cat
    by (simp add: resolveWildcard_def isWildcard_def expandRolesLoop_eq heldRoles_iff)
  have roles: "GetRoles (SetRoles ?expanded req) = ?expanded"
    by (simp add: GetRoles_def SetRoles_def)
  have chk: "checkRoles validator (GetUser (SetRoles ?expanded req)) (GetRoles (SetRoles ?expanded req)) = None"
    unfolding roles by (simp add: checkRoles_None_iff)
  have roles': "GetRoles (SetSystemAnnotations (SystemAnnotations validator) (SetRoles ?expanded req)) = ?expanded"
    by (simp add: GetRoles_def SetRoles_def SetSystemAnnotations_def)
  show ?thesis
    using user pushed reason res chk roles roles'
    by (auto simp: ValidateAccessRequest_def)
qed

text \<open>
  On the sample data: the catalogue is \<^verbatim>\<open>dev-infra\<close>, \<^verbatim>\<open>dev-secret\<close>, \<^verbatim>\<open>base\<close>; alice holds
  \<^verbatim>\<open>base\<close>, which denies \<^verbatim>\<open>dev-secret\<close>; the wildcard expands to \<^verbatim>\<open>dev-infra\<close>.
\<close>

theorem wildcard_expansion_witness:
  "getter_GetUser sampleGetter (GetUser sampleRequest) False = Inr sampleUser
   \<and> pushUserRoles sampleExt sampleGetter (user_Roles sampleUser)
       (newRequestValidator (user_Traits sampleUser) (GetState sampleRequest)) False
     = Inr (sampleValidator, True)
   \<and> GetRequestReason sampleRequest \<noteq> []
   \<and> GetRoles sampleRequest = [''*'']
   \<and> getter_GetRoles sampleGetter = Inr sampleCatalogue
   \<and> (\<exists>req'. ValidateAccessRequest sampleExt sampleGetter sampleRequest True = (req', None)
          \<and> GetRoles req' = [''dev-infra''])"
proof -
  have st: "GetState sampleRequest = RequestState_PENDING"
    by (simp add: GetState_def sampleRequest_def)
  have pushed: "pushUserRoles sampleExt sampleGetter (user_Roles sampleUser)
       (newRequestValidator (user_Traits sampleUser) (GetState sampleRequest)) False
     = Inr (sampleValidator, True)"
    by (simp add: st pushUserRoles_sample)
  have reason: "\<not> (True \<and> GetRequestReason sampleRequest = [])"
    by (simp add: GetRequestReason_def sampleRequest_def)
  have wild: "GetRoles sampleRequest = [''*'']"
    by (simp add: GetRoles_def sampleRequest_def)
  have cat: "getter_GetRoles sampleGetter = Inr sampleCatalogue"
    by (simp add: sampleGetter_def)
  have names: "filter (\<lambda>n. n \<notin> set (user_Roles sampleUser) \<and> CanRequestRole sampleValidator n)
                 (map role_Name sampleCatalogue) = [''dev-infra'']"
    by (simp add: sampleCatalogue_def sampleUser_def plainRole_def roleBase_def roleStrict_def CanRequestRole_sample)
  show ?thesis
    using sampleGetter_user pushed reason wild cat
      wildcard_expansion [OF sampleGetter_user pushed reason wild cat]
    unfolding names by simp
qed

text \<open>
  C2 as the claim words it has the role list replaced on every such call. Dave holds
  \<^verbatim>\<open>strict\<close>, whose option is \<^verbatim>\<open>reason\<close> and which allows nothing; he sends the wildcard
  without a reason and \<^verbatim>\<open>expandRoles\<close> is true. No name of the catalogue is admitted for
  him, so the replacement would be the empty list; the reason check fails first and the
  role list is still the wildcard.
\<close>

theorem wildcard_expansion_counterexample:
  "GetRoles daveRequest = [''*'']
   \<and> pushUserRoles sampleExt sampleGetter (user_Roles daveUser)
       (newRequestValidator (user_Traits daveUser) (GetState daveRequest)) False
     = Inr (newRequestValidator [] RequestState_PENDING, True)
   \<and> filter (\<lambda>n. n \<notin> set (user_Roles daveUser)
                  \<and> CanRequestRole (newRequestValidator [] RequestState_PENDING) n)
        (map role_Name sampleCatalogue) = []
   \<and> ValidateAccessRequest sampleExt sampleGetter daveRequest True =
       (daveRequest, Some (BadParameter ''request reason must be specified'' []))
   \<and> GetRoles (fst (ValidateAccessRequest sampleExt sampleGetter daveRequest True)) = [''*'']"
proof -
  have pushed: "pushUserRoles sampleExt sampleGetter (user_Roles daveUser)
       (newRequestValidator (user_Traits daveUser) (GetState daveRequest)) False
     = Inr (newRequestValidator [] RequestState_PENDING, True)"
    by (simp add: daveRequest_fields pushUserRoles_dave)
  have names: "filter (\<lambda>n. n \<notin> set (user_Roles daveUser)
                  \<and> CanRequestRole (newRequestValidator [] RequestState_PENDING) n)
        (map role_Name sampleCatalogue) = []"
    by (simp add: CanRequestRole_def newRequestValidator_def)
  have run: "ValidateAccessRequest sampleExt sampleGetter daveRequest True =
       (daveRequest, Some (BadParameter ''request reason must be specified'' []))"
    by (simp add: ValidateAccessRequest_def sampleGetter_dave daveRequest_fields pushUserRoles_dave)
  from daveRequest_fields(3) pushed names run show ?thesis by simp
qed

subsection \<open>Validating twice\<close>

text \<open>
  C8. Let a run of \<^verbatim>\<open>ValidateAccessRequest\<close> succeed and leave a request whose role list is
  not the wildcard. A second run on that request, with the same getter and either value of
  \<^verbatim>\<open>expandRoles\<close>, succeeds and returns the request unchanged, its role list and its
  system annotations included.
\<close>

theorem revalidation_noop:
  assumes first: "ValidateAccessRequest ext getter req expandRoles = (req', None)"
    and nowild: "GetRoles req' \<noteq> [''*'']"
  shows "ValidateAccessRequest ext getter req' expandRoles' = (req', None)"
proof -
  from first obtain user where user: "getter_GetUser getter (GetUser req) False = Inr user"
    by (auto simp: ValidateAccessRequest_def split: sum.splits)
  from first user obtain validator requireReason where
    pushed: "pushUserRoles ext getter (user_Roles user)
               (newRequestValidator (user_Traits user) (GetState req)) False
             = Inr (validator, requireReason)"
    by (auto simp: ValidateAccessRequest_def split: sum.splits)
  from first user pushed have reason: "\<not> (requireReason \<and> GetRequestReason req = [])"
    by (auto simp: ValidateAccessRequest_def split: if_splits)
  from first user pushed reason obtain req1 where
    res: "resolveWildcard getter user validator req expandRoles = Inr req1"
    by (auto simp: ValidateAccessRequest_def split: sum.splits)
  from first user pushed reason res have
    chk: "checkRoles validator (GetUser req1) (GetRoles req1) = None"
    by (auto simp: ValidateAccessRequest_def split: option.splits)
  from first user pushed reason res chk have
    req': "req' = (if IsPending (GetState req1)
                   then SetSystemAnnotations (SystemAnnotations validator) req1 else req1)"
    by (auto simp: ValidateAccessRequest_def split: if_splits)
  note same = resolveWildcard_fields [OF res]
  have f': "GetUser req' = GetUser req" "GetState req' = GetState req"
    "GetRequestReason req' = GetRequestReason req" "GetRoles req' = GetRoles req1"
    using same unfolding req'
    by (auto simp: GetUser_def GetState_def GetRequestReason_def GetRoles_def SetSystemAnnotations_def)
  have res': "resolveWildcard getter user validator req' expandRoles' = Inr req'"
    using nowild by (auto simp: resolveWildcard_def isWildcard_def length_Suc_conv)
  have chk': "checkRoles validator (GetUser req') (GetRoles req') = None"
    using chk same f' by simp
  have idem: "(if IsPending (GetState req')
               then SetSystemAnnotations (SystemAnnotations validator) req' else req') = req'"
    using same unfolding req' by (auto simp: SetSystemAnnotations_def GetState_def)
  show ?thesis
    using user pushed reason res' chk' idem f'
    by (auto simp: ValidateAccessRequest_def)
qed

text \<open>
  On the sample data: the first run expands alice's wildcard to \<^verbatim>\<open>dev-infra\<close> and attaches
  the annotation \<^verbatim>\<open>team = infra\<close>; the second run changes nothing.
\<close>

theorem revalidation_noop_witness:
  "ValidateAccessRequest sampleExt sampleGetter sampleRequest True = (expandedRequest, None)
   \<and> GetRoles expandedRequest \<noteq> [''*'']
   \<and> ValidateAccessRequest sampleExt sampleGetter expandedRequest False = (expandedRequest, None)"
proof -
  have nowild: "GetRoles expandedRequest \<noteq> [''*'']"
    by (simp add: GetRoles_def expandedRequest_def)
  show ?thesis
    using validate_sampleRequest nowild
      revalidation_noop [OF validate_sampleRequest nowild, of False]
    by simp
qed

end
